theory Spec2Isabelle
  imports Main "HOL-Library.Sublist"
begin

section \<open>The Section component of src/src/Section.tsx\<close>

text \<open>
  The component keeps four state cells (\<open>list\<close>, \<open>filter\<close>, \<open>fileredList\<close>,
  \<open>inputValue\<close>) and three effects. The model passes the state explicitly, together
  with what the component itself does to the outside: the lines it writes to the console
  and the requests it hands to \<open>fetch\<close>. An event is handled up to and including the render
  it causes and the effects of that render. A keystroke or a click is rendered at once.
  The updates made in promise callbacks are batched: requests whose callbacks run before
  React gets to render are rendered together, once; a request that settles alone is the
  batch of one. A keystroke or a click is taken to find no render pending.
\<close>

subsection \<open>JavaScript values\<close>

text \<open>
  \<open>response.json()\<close> yields any JSON value, and \<open>item.full_name\<close> may yield
  \<open>undefined\<close>; the annotation \<open>string[]\<close> of \<open>list\<close> is erased at run time, so the
  state holds values, not only strings. A \<open>char\<close> stands for a code unit of a
  JavaScript string; the payload of a number is never inspected by the component. \<open>Obj\<close>
  lists the own properties of a parsed object, keys distinct.
\<close>

datatype jsval =
    Undefined
  | Null
  | Bool bool
  | Num int
  | Str string
  | Arr "jsval list"
  | Obj "(string \<times> jsval) list"

datatype js_error =
    TypeError
  | InvalidChild
  | Rejection string

text \<open>
  \<open>TypeError\<close> is what the engine throws on a call of something that is not a function
  and on a property read on \<open>null\<close> or \<open>undefined\<close>; \<open>InvalidChild\<close> is what React throws
  when it is given an object to render as a child; \<open>Rejection\<close> is the reason the
  environment rejects the promise of \<open>fetch\<close> or of \<open>response.json()\<close> with.
\<close>

datatype console_event =
    ConsoleLog string
  | ConsoleError string js_error

datatype json_result =
    JsonValue jsval
  | JsonRejected js_error

text \<open>
  How a request settles: \<open>fetch\<close> rejects (a transport error), or resolves with a
  response of some HTTP status whose \<open>json()\<close> resolves or rejects.
\<close>

datatype fetch_outcome =
    FetchRejected js_error
  | Response nat json_result

record request =
  url :: string
  settled :: bool

record state =
  list_st :: "jsval list"
  filter_st :: string
  fileredList :: "jsval list"
  inputValue :: string
  console :: "console_event list"
  requests :: "request list"

text \<open>
  An error that nobody catches, thrown by a render or inside an effect, together with
  the state in which that render or effect ran.
\<close>

type_synonym crash = "js_error \<times> state"

definition initial :: state where
  "initial = \<lparr>list_st = [], filter_st = [], fileredList = [], inputValue = [],
     console = [], requests = []\<rparr>"

subsection \<open>Built-ins the component calls\<close>

text \<open>\<open>String.prototype.includes\<close>: some position of the string starts the search string.\<close>

fun string_includes :: "string \<Rightarrow> string \<Rightarrow> bool" where
  "string_includes [] f = (f = [])"
| "string_includes (c # cs) f = (prefix f (c # cs) \<or> string_includes cs f)"

text \<open>
  \<open>item.includes(filter)\<close> on a value: a string searches for a substring, an array for an
  element that is the string \<open>filter\<close>; \<open>null\<close> and \<open>undefined\<close> have no properties, and
  on a number, a boolean or a parsed object \<open>includes\<close> is not a function.
\<close>

fun js_includes :: "jsval \<Rightarrow> string \<Rightarrow> js_error + bool" where
  "js_includes (Str s) f = Inr (string_includes s f)"
| "js_includes (Arr xs) f = Inr (Str f \<in> set xs)"
| "js_includes _ f = Inl TypeError"

text \<open>\<open>Array.prototype.filter\<close> and \<open>Array.prototype.map\<close>, with a callback that may throw.\<close>

fun array_filter :: "('a \<Rightarrow> js_error + bool) \<Rightarrow> 'a list \<Rightarrow> js_error + 'a list" where
  "array_filter p [] = Inr []"
| "array_filter p (x # xs) =
     (case p x of
        Inl e \<Rightarrow> Inl e
      | Inr b \<Rightarrow>
          (case array_filter p xs of
             Inl e \<Rightarrow> Inl e
           | Inr ys \<Rightarrow> Inr (if b then x # ys else ys)))"

fun array_map :: "('a \<Rightarrow> js_error + 'b) \<Rightarrow> 'a list \<Rightarrow> js_error + 'b list" where
  "array_map g [] = Inr []"
| "array_map g (x # xs) =
     (case g x of
        Inl e \<Rightarrow> Inl e
      | Inr y \<Rightarrow>
          (case array_map g xs of
             Inl e \<Rightarrow> Inl e
           | Inr ys \<Rightarrow> Inr (y # ys)))"

text \<open>\<open>item.full_name\<close>: the property of an object, \<open>undefined\<close> where there is none.\<close>

fun full_name :: "jsval \<Rightarrow> js_error + jsval" where
  "full_name Undefined = Inl TypeError"
| "full_name Null = Inl TypeError"
| "full_name (Obj props) =
     Inr (case map_of props ''full_name'' of None \<Rightarrow> Undefined | Some v \<Rightarrow> v)"
| "full_name _ = Inr Undefined"

text \<open>\<open>data.map((item: any) => item.full_name)\<close>: only an array has a \<open>map\<close> to call.\<close>

fun data_map :: "jsval \<Rightarrow> js_error + jsval list" where
  "data_map (Arr items) = array_map full_name items"
| "data_map _ = Inl TypeError"

subsection \<open>The render\<close>

text \<open>
  The JSX puts \<open>{item}\<close> into an \<open><li>\<close> for every item of \<open>list\<close>. A string or a
  number is shown, \<open>null\<close>, \<open>undefined\<close> and a boolean show nothing, an array shows its
  elements, and an object is not a valid child: React throws while it renders, before any
  effect runs.
\<close>

fun valid_child :: "jsval \<Rightarrow> bool" where
  "valid_child (Obj props) = False"
| "valid_child (Arr xs) = list_all valid_child xs"
| "valid_child _ = True"

text \<open>
  The items of \<open>fileredList\<close> are items of \<open>list\<close>, and an item that is shown has been
  rendered when it came into \<open>list\<close>: the render can throw only where \<open>list\<close> is replaced,
  and is evaluated there.
\<close>

definition render :: "state \<Rightarrow> crash + state" where
  "render s = (if list_all valid_child (list_st s) then Inr s else Inl (InvalidChild, s))"

subsection \<open>The effects\<close>

definition toWarnAPI :: "state \<Rightarrow> state" where
  "toWarnAPI s = s\<lparr>console := console s @ [ConsoleLog ''Lista salva!'']\<rparr>"

definition effect_notify :: "state \<Rightarrow> state" where
  "effect_notify s = (if length (list_st s) \<noteq> 0 then toWarnAPI s else s)"

definition request_url :: "string \<Rightarrow> string" where
  "request_url v = ''https://api.github.com/users/'' @ v @ ''/repos''"

definition effect_fetch :: "state \<Rightarrow> state" where
  "effect_fetch s =
     (if inputValue s \<noteq> []
      then s\<lparr>requests := requests s @ [\<lparr>url = request_url (inputValue s), settled = False\<rparr>]\<rparr>
      else s)"

definition setFileredList :: "jsval list \<Rightarrow> state \<Rightarrow> state" where
  "setFileredList xs s = s\<lparr>fileredList := xs\<rparr>"

text \<open>An error thrown inside an effect is caught by nobody: \<open>Inl\<close> is the uncaught error.\<close>

definition effect_filter :: "state \<Rightarrow> crash + state" where
  "effect_filter s =
     (case array_filter (\<lambda>item. js_includes item (filter_st s)) (list_st s) of
        Inl e \<Rightarrow> Inl (e, s)
      | Inr xs \<Rightarrow> Inr (setFileredList xs s))"

text \<open>
  After a render the effects run once, in the order of the source, each one only if one of
  its dependencies changed since the render before: \<open>[list]\<close>, \<open>[inputValue]\<close>,
  \<open>[filter, list]\<close>.
\<close>

definition run_effects :: "bool \<Rightarrow> bool \<Rightarrow> bool \<Rightarrow> state \<Rightarrow> crash + state" where
  "run_effects list_changed inputValue_changed filter_changed s =
     (let s1 = (if list_changed then effect_notify s else s);
          s2 = (if inputValue_changed then effect_fetch s1 else s1)
      in if filter_changed \<or> list_changed then effect_filter s2 else Inr s2)"

subsection \<open>The state setters and the handlers\<close>

text \<open>
  A setter called with the value the cell already holds renders nothing. An array is
  compared by reference, and every array given to \<open>setList\<close> is a new one. \<open>setList\<close> here
  is the update together with the render that shows it and the effects of that render;
  updates of one batch are gathered by \<open>callbacks\<close> below before it is called.
\<close>

definition setList :: "jsval list \<Rightarrow> state \<Rightarrow> crash + state" where
  "setList xs s =
     (case render (s\<lparr>list_st := xs\<rparr>) of
        Inl c \<Rightarrow> Inl c
      | Inr s' \<Rightarrow> run_effects True False False s')"

definition setFilter :: "string \<Rightarrow> state \<Rightarrow> crash + state" where
  "setFilter f s =
     (if f = filter_st s then Inr s else run_effects False False True (s\<lparr>filter_st := f\<rparr>))"

definition setInputValue :: "string \<Rightarrow> state \<Rightarrow> crash + state" where
  "setInputValue v s =
     (if v = inputValue s then Inr s else run_effects False True False (s\<lparr>inputValue := v\<rparr>))"

definition addToList :: "state \<Rightarrow> crash + state" where
  "addToList s = setList (list_st s @ [Str ''Novo item'']) s"

definition handleChangeInput :: "string \<Rightarrow> state \<Rightarrow> crash + state" where
  "handleChangeInput v s = setInputValue v s"

subsection \<open>The promise chain of the fetch effect\<close>

definition error_prefix :: string where
  "error_prefix = ''Erro ao buscar reposit'' @ [CHR 0xF3] @ ''rios:''"

definition catch_handler :: "js_error \<Rightarrow> state \<Rightarrow> state" where
  "catch_handler e s = s\<lparr>console := console s @ [ConsoleError error_prefix e]\<rparr>"

text \<open>
  What reaches the end of \<open>fetch(...).then(response => response.json()).then(data => ...)\<close>:
  the array for \<open>setList\<close>, or the error for \<open>catch\<close>. The status of the response is
  not read.
\<close>

fun fetch_chain :: "fetch_outcome \<Rightarrow> js_error + jsval list" where
  "fetch_chain (FetchRejected e) = Inl e"
| "fetch_chain (Response status (JsonRejected e)) = Inl e"
| "fetch_chain (Response status (JsonValue data)) = data_map data"

definition in_flight :: "state \<Rightarrow> nat \<Rightarrow> bool" where
  "in_flight s k = (k < length (requests s) \<and> \<not> settled (requests s ! k))"

definition mark_settled :: "nat \<Rightarrow> state \<Rightarrow> state" where
  "mark_settled k s = s\<lparr>requests := (requests s)[k := (requests s ! k)\<lparr>settled := True\<rparr>]\<rparr>"

text \<open>
  The callbacks of the requests of a batch run in the order in which the requests settle,
  before the render: \<open>catch\<close> writes its line at once, \<open>setList\<close> queues its array, and a
  later array of the batch replaces a queued one. A promise settles once, so an entry
  that names no request in flight is none of the component's and does nothing.
\<close>

fun callbacks ::
  "(nat \<times> fetch_outcome) list \<Rightarrow> state \<Rightarrow> jsval list option \<Rightarrow> state \<times> jsval list option"
where
  "callbacks [] s queued = (s, queued)"
| "callbacks ((k, outcome) # rest) s queued =
     (if in_flight s k
      then (case fetch_chain outcome of
              Inl e \<Rightarrow> callbacks rest (catch_handler e (mark_settled k s)) queued
            | Inr names \<Rightarrow> callbacks rest (mark_settled k s) (Some names))
      else callbacks rest s queued)"

text \<open>The batch settles: the callbacks, then one render if an array is queued.\<close>

definition settle_batch :: "(nat \<times> fetch_outcome) list \<Rightarrow> state \<Rightarrow> crash + state" where
  "settle_batch batch s =
     (case callbacks batch s None of
        (s', None) \<Rightarrow> Inr s'
      | (s', Some names) \<Rightarrow> setList names s')"

subsection \<open>Events and runs\<close>

datatype event =
    ChangeInput string
  | ChangeFilter string
  | ClickAdd
  | SettleBatch "(nat \<times> fetch_outcome) list"

text \<open>The \<open>k\<close>-th request settles alone.\<close>

abbreviation Settle :: "nat \<Rightarrow> fetch_outcome \<Rightarrow> event" where
  "Settle k outcome \<equiv> SettleBatch [(k, outcome)]"

fun step :: "state \<Rightarrow> event \<Rightarrow> crash + state" where
  "step s (ChangeInput v) = handleChangeInput v s"
| "step s (ChangeFilter f) = setFilter f s"
| "step s ClickAdd = addToList s"
| "step s (SettleBatch batch) = settle_batch batch s"

fun run :: "state \<Rightarrow> event list \<Rightarrow> crash + state" where
  "run s [] = Inr s"
| "run s (ev # evs) = (case step s ev of Inl c \<Rightarrow> Inl c | Inr s' \<Rightarrow> run s' evs)"

text \<open>The state in which handling ended, with or without an uncaught error.\<close>

fun last_state :: "crash + state \<Rightarrow> state" where
  "last_state (Inl (e, s)) = s"
| "last_state (Inr s) = s"

text \<open>The number of times the notifier has fired.\<close>

definition notified :: "state \<Rightarrow> nat" where
  "notified s = count_list (console s) (ConsoleLog ''Lista salva!'')"

text \<open>
  An event that calls \<open>setList\<close>: the click, or a batch with a request whose chain
  reaches it.
\<close>

fun mutation :: "state \<Rightarrow> event \<Rightarrow> bool" where
  "mutation s ClickAdd = True"
| "mutation s (SettleBatch batch) = (snd (callbacks batch s None) \<noteq> None)"
| "mutation s _ = False"

text \<open>Every item on display is a valid child.\<close>

definition shown :: "state \<Rightarrow> bool" where
  "shown s \<longleftrightarrow> list_all valid_child (list_st s) \<and> list_all valid_child (fileredList s)"

text \<open>The derived cell agrees with the two cells it is computed from.\<close>

definition consistent :: "state \<Rightarrow> bool" where
  "consistent s \<longleftrightarrow>
     array_filter (\<lambda>item. js_includes item (filter_st s)) (list_st s) = Inr (fileredList s)"

section \<open>Properties\<close>

subsection \<open>The built-ins\<close>

lemma string_includes_iff: "string_includes s f \<longleftrightarrow> (\<exists>p q. s = p @ f @ q)"
proof (induction s)
  case Nil
  then show ?case by auto
next
  case (Cons c cs)
  have "(\<exists>p q. c # cs = p @ f @ q) \<longleftrightarrow> prefix f (c # cs) \<or> (\<exists>p q. cs = p @ f @ q)"
    using sublist_Cons_right [of f c cs] by (simp add: sublist_def)
  with Cons show ?case by simp
qed

lemma string_includes_Nil [simp]: "string_includes s []"
  by (induction s) auto

lemma array_filter_strings:
  "array_filter (\<lambda>item. js_includes item f) (map Str L) =
     Inr (map Str (filter (\<lambda>x. string_includes x f) L))"
  by (induction L) auto

lemma valid_child_strings [simp]: "list_all valid_child (map Str L)"
  by (induction L) auto

lemma array_filter_subset: "array_filter p xs = Inr ys \<Longrightarrow> set ys \<subseteq> set xs"
  by (induction xs arbitrary: ys) (auto split: sum.splits if_splits)

subsection \<open>The setters\<close>

lemmas component_defs =
  handleChangeInput_def setInputValue_def setFilter_def addToList_def setList_def
  settle_batch_def in_flight_def mark_settled_def catch_handler_def run_effects_def Let_def
  render_def
  effect_notify_def effect_fetch_def effect_filter_def setFileredList_def toWarnAPI_def
  request_url_def initial_def

lemma mount_effects: "run_effects True True True initial = Inr initial"
  by (simp add: run_effects_def Let_def initial_def effect_notify_def effect_fetch_def
      effect_filter_def setFileredList_def)

lemma setList_Inr:
  assumes "setList xs s = Inr s'"
  shows "list_st s' = xs" and "filter_st s' = filter_st s" and "inputValue s' = inputValue s"
    and "requests s' = requests s"
    and "console s' = console s @ (if xs = [] then [] else [ConsoleLog ''Lista salva!''])"
    and "array_filter (\<lambda>item. js_includes item (filter_st s)) xs = Inr (fileredList s')"
  using assms
  by (auto simp: setList_def render_def run_effects_def Let_def effect_notify_def toWarnAPI_def
      effect_filter_def setFileredList_def split: sum.splits if_splits)

lemma setList_strings:
  "setList (map Str L) s =
     Inr (s\<lparr>list_st := map Str L,
            console := console s @ (if L = [] then [] else [ConsoleLog ''Lista salva!'']),
            fileredList := map Str (filter (\<lambda>x. string_includes x (filter_st s)) L)\<rparr>)"
  by (simp add: setList_def render_def run_effects_def Let_def effect_notify_def toWarnAPI_def
      effect_filter_def setFileredList_def array_filter_strings)

lemma setFilter_Inr:
  assumes "setFilter f s = Inr s'"
  shows "list_st s' = list_st s" and "filter_st s' = f" and "inputValue s' = inputValue s"
    and "requests s' = requests s" and "console s' = console s"
    and "consistent s \<Longrightarrow> consistent s'"
  using assms
  by (auto simp: setFilter_def run_effects_def Let_def consistent_def
      effect_filter_def setFileredList_def split: sum.splits if_splits)

lemma setInputValue_eq:
  "setInputValue v s =
     Inr (if v = inputValue s then s
          else if v = [] then s\<lparr>inputValue := v\<rparr>
          else s\<lparr>inputValue := v,
                 requests := requests s @ [\<lparr>url = request_url v, settled = False\<rparr>]\<rparr>)"
  by (simp add: setInputValue_def run_effects_def Let_def effect_fetch_def)

lemma setList_valid: "setList xs s = Inr s' \<Longrightarrow> list_all valid_child xs"
  by (auto simp: setList_def render_def split: sum.splits if_splits)

lemma setList_last_state:
  "list_st (last_state (setList xs s)) = xs"
  "console (last_state (setList xs s)) =
     console s @ (if xs = [] \<or> \<not> list_all valid_child xs then []
                  else [ConsoleLog ''Lista salva!''])"
  by (auto simp: setList_def render_def run_effects_def Let_def effect_notify_def toWarnAPI_def
      effect_filter_def setFileredList_def split: sum.splits)

subsection \<open>The callbacks of a batch\<close>

lemma callbacks_cells:
  assumes "callbacks batch s queued = (s', queued')"
  shows "list_st s' = list_st s" and "filter_st s' = filter_st s"
    and "fileredList s' = fileredList s" and "inputValue s' = inputValue s"
    and "notified s' = notified s"
  using assms
  by (induction batch s queued rule: callbacks.induct;
      auto simp: catch_handler_def mark_settled_def notified_def split: if_splits sum.splits)+

lemma settle_one:
  "settle_batch [(k, outcome)] s =
     (if in_flight s k
      then (case fetch_chain outcome of
              Inl e \<Rightarrow> Inr (catch_handler e (mark_settled k s))
            | Inr names \<Rightarrow> setList names (mark_settled k s))
      else Inr s)"
  by (simp add: settle_batch_def split: sum.splits)

lemma mutation_one:
  "mutation s (Settle k outcome) \<longleftrightarrow> in_flight s k \<and> \<not> isl (fetch_chain outcome)"
  by (simp split: sum.splits)

subsection \<open>The derived list follows the list and the filter\<close>

lemma step_consistent: "step s ev = Inr s' \<Longrightarrow> consistent s \<Longrightarrow> consistent s'"
proof (cases ev)
  case (ChangeInput v)
  assume "step s ev = Inr s'" "consistent s"
  with ChangeInput show ?thesis
    by (auto simp: handleChangeInput_def setInputValue_eq consistent_def split: if_splits)
next
  case (ChangeFilter f)
  assume "step s ev = Inr s'" "consistent s"
  with ChangeFilter show ?thesis by (simp add: setFilter_Inr(6))
next
  case ClickAdd
  assume "step s ev = Inr s'" "consistent s"
  with ClickAdd have "setList (list_st s @ [Str ''Novo item'']) s = Inr s'"
    by (simp add: addToList_def)
  from setList_Inr [OF this] show ?thesis by (simp add: consistent_def)
next
  case (SettleBatch batch)
  assume a: "step s ev = Inr s'" "consistent s"
  obtain s0 queued where c: "callbacks batch s None = (s0, queued)"
    by (cases "callbacks batch s None")
  from callbacks_cells [OF c] a(2) have s0: "consistent s0"
    by (simp add: consistent_def)
  show ?thesis
  proof (cases queued)
    case None
    with a SettleBatch c s0 show ?thesis by (simp add: settle_batch_def)
  next
    case (Some names)
    with a SettleBatch c have "setList names s0 = Inr s'"
      by (simp add: settle_batch_def)
    from setList_Inr [OF this] show ?thesis by (simp add: consistent_def)
  qed
qed

lemma run_consistent: "run s evs = Inr s' \<Longrightarrow> consistent s \<Longrightarrow> consistent s'"
proof (induction evs arbitrary: s)
  case Nil
  then show ?case by simp
next
  case (Cons ev evs)
  then show ?case by (auto split: sum.splits dest: step_consistent)
qed

lemma consistent_initial: "consistent initial"
  by (simp add: consistent_def initial_def)

text \<open>
  C1. After any sequence of events the component survives, \<open>fileredList\<close> is the list of
  the items of \<open>list\<close> that contain \<open>filter\<close> as a contiguous substring (compared code
  unit by code unit, so case-sensitive), in the order of \<open>list\<close>; with the empty filter
  it is the whole list.
\<close>

theorem filtered_list_is_substring_filter:
  assumes "run initial evs = Inr s" and "list_st s = map Str L" and "filter_st s = f"
  shows "fileredList s = map Str (filter (\<lambda>x. \<exists>p q. x = p @ f @ q) L) \<and>
         (f = [] \<longrightarrow> fileredList s = map Str L)"
proof -
  have "consistent s"
    using run_consistent [OF assms(1) consistent_initial] .
  with assms(2,3) have *: "fileredList s = map Str (filter (\<lambda>x. string_includes x f) L)"
    by (simp add: consistent_def array_filter_strings)
  then have "fileredList s = map Str (filter (\<lambda>x. \<exists>p q. x = p @ f @ q) L)"
    by (simp add: string_includes_iff)
  moreover from * have "f = [] \<longrightarrow> fileredList s = map Str L"
    by simp
  ultimately show ?thesis by simp
qed

theorem filtered_list_is_substring_filter_witness:
  "run initial
     [ChangeInput ''u'',
      Settle 0 (Response 200 (JsonValue (Arr [Obj [(''full_name'', Str ''u/ab'')],
                                              Obj [(''full_name'', Str ''u/cd'')]]))),
      ChangeFilter ''b''] =
   Inr \<lparr>list_st = map Str [''u/ab'', ''u/cd''], filter_st = ''b'',
         fileredList = [Str ''u/ab''], inputValue = ''u'',
         console = [ConsoleLog ''Lista salva!''],
         requests = [\<lparr>url = ''https://api.github.com/users/u/repos'', settled = True\<rparr>]\<rparr>
   \<and> [Str ''u/ab''] = map Str (filter (\<lambda>x. \<exists>p q. x = p @ ''b'' @ q) [''u/ab'', ''u/cd''])
   \<and> run initial [ClickAdd] =
   Inr \<lparr>list_st = map Str [''Novo item''], filter_st = [],
         fileredList = map Str [''Novo item''], inputValue = [],
         console = [ConsoleLog ''Lista salva!''], requests = []\<rparr>"
proof -
  let ?s = "\<lparr>list_st = map Str [''u/ab'', ''u/cd''], filter_st = ''b'',
         fileredList = [Str ''u/ab''], inputValue = ''u'',
         console = [ConsoleLog ''Lista salva!''],
         requests = [\<lparr>url = ''https://api.github.com/users/u/repos'', settled = True\<rparr>]\<rparr>"
  let ?t = "\<lparr>list_st = map Str [''Novo item''], filter_st = [],
         fileredList = map Str [''Novo item''], inputValue = [],
         console = [ConsoleLog ''Lista salva!''], requests = []\<rparr>"
  have r: "run initial
     [ChangeInput ''u'',
      Settle 0 (Response 200 (JsonValue (Arr [Obj [(''full_name'', Str ''u/ab'')],
                                              Obj [(''full_name'', Str ''u/cd'')]]))),
      ChangeFilter ''b''] = Inr ?s"
    by (simp add: component_defs)
  have t: "run initial [ClickAdd] = Inr ?t"
    by (simp add: component_defs)
  have "fileredList ?s = map Str (filter (\<lambda>x. \<exists>p q. x = p @ ''b'' @ q) [''u/ab'', ''u/cd''])"
    using filtered_list_is_substring_filter [OF r, of "[''u/ab'', ''u/cd'']" "''b''"] by simp
  moreover have "fileredList ?t = map Str [''Novo item'']"
    using filtered_list_is_substring_filter [OF t, of "[''Novo item'']" "[]"] by simp
  ultimately show ?thesis using r t by simp
qed

subsection \<open>Every item on display has been rendered\<close>

text \<open>
  In a state the component reaches, the items of \<open>list\<close> and of \<open>fileredList\<close> are valid
  children: a render of cells that are already shown cannot throw.
\<close>

lemma step_shown: "step s ev = Inr s' \<Longrightarrow> shown s \<Longrightarrow> shown s'"
proof (cases ev)
  case (ChangeInput v)
  assume "step s ev = Inr s'" "shown s"
  with ChangeInput show ?thesis
    by (auto simp: handleChangeInput_def setInputValue_eq shown_def split: if_splits)
next
  case (ChangeFilter f)
  assume a: "step s ev = Inr s'" "shown s"
  show ?thesis
  proof (cases "f = filter_st s")
    case True
    with a ChangeFilter show ?thesis by (simp add: setFilter_def)
  next
    case False
    with a ChangeFilter obtain ys where
      ys: "array_filter (\<lambda>item. js_includes item f) (list_st s) = Inr ys"
        "s' = s\<lparr>filter_st := f, fileredList := ys\<rparr>"
      by (auto simp: setFilter_def run_effects_def Let_def effect_filter_def setFileredList_def
          split: sum.splits)
    from array_filter_subset [OF ys(1)] a(2) have "list_all valid_child ys"
      by (auto simp: shown_def list_all_iff)
    with ys(2) a(2) show ?thesis by (simp add: shown_def)
  qed
next
  case ClickAdd
  assume "step s ev = Inr s'" "shown s"
  with ClickAdd have r: "setList (list_st s @ [Str ''Novo item'']) s = Inr s'"
    by (simp add: addToList_def)
  from setList_Inr(1,6) [OF r] setList_valid [OF r] array_filter_subset show ?thesis
    by (fastforce simp: shown_def list_all_iff)
next
  case (SettleBatch batch)
  assume a: "step s ev = Inr s'" "shown s"
  obtain s0 queued where c: "callbacks batch s None = (s0, queued)"
    by (cases "callbacks batch s None")
  from callbacks_cells [OF c] a(2) have s0: "shown s0"
    by (simp add: shown_def)
  show ?thesis
  proof (cases queued)
    case None
    with a SettleBatch c s0 show ?thesis by (simp add: settle_batch_def)
  next
    case (Some names)
    with a SettleBatch c have r: "setList names s0 = Inr s'"
      by (simp add: settle_batch_def)
    from setList_Inr(1,6) [OF r] setList_valid [OF r] array_filter_subset show ?thesis
      by (fastforce simp: shown_def list_all_iff)
  qed
qed

lemma run_shown: "run s evs = Inr s' \<Longrightarrow> shown s \<Longrightarrow> shown s'"
proof (induction evs arbitrary: s)
  case Nil
  then show ?case by simp
next
  case (Cons ev evs)
  then show ?case by (auto split: sum.splits dest: step_shown)
qed

lemma shown_initial: "shown initial"
  by (simp add: shown_def initial_def)

subsection \<open>The notifier\<close>

lemma step_notified:
  "step s ev = Inr s' \<Longrightarrow>
     notified s' = notified s + (if mutation s ev \<and> list_st s' \<noteq> [] then 1 else 0)"
proof (cases ev)
  case (ChangeInput v)
  assume "step s ev = Inr s'"
  with ChangeInput show ?thesis
    by (auto simp: handleChangeInput_def setInputValue_eq notified_def split: if_splits)
next
  case (ChangeFilter f)
  assume "step s ev = Inr s'"
  with ChangeFilter show ?thesis by (simp add: setFilter_Inr(5) notified_def)
next
  case ClickAdd
  assume "step s ev = Inr s'"
  with ClickAdd have "setList (list_st s @ [Str ''Novo item'']) s = Inr s'"
    by (simp add: addToList_def)
  from setList_Inr(1,5) [OF this] ClickAdd show ?thesis by (simp add: notified_def)
next
  case (SettleBatch batch)
  assume a: "step s ev = Inr s'"
  obtain s0 queued where c: "callbacks batch s None = (s0, queued)"
    by (cases "callbacks batch s None")
  show ?thesis
  proof (cases queued)
    case None
    with a SettleBatch c callbacks_cells(5) [OF c] show ?thesis
      by (simp add: settle_batch_def)
  next
    case (Some names)
    with a SettleBatch c have "setList names s0 = Inr s'"
      by (simp add: settle_batch_def)
    from setList_Inr(1,5) [OF this] SettleBatch c Some callbacks_cells(5) [OF c]
    show ?thesis by (simp add: notified_def)
  qed
qed

lemma step_notified_last:
  "notified (last_state (step s ev)) =
     notified s + (if mutation s ev \<and> list_st (last_state (step s ev)) \<noteq> [] \<and>
                      list_all valid_child (list_st (last_state (step s ev)))
                   then 1 else 0)"
proof (cases ev)
  case (ChangeInput v)
  then show ?thesis
    by (simp add: handleChangeInput_def setInputValue_eq notified_def)
next
  case (ChangeFilter f)
  then show ?thesis
    by (auto simp: setFilter_def run_effects_def Let_def effect_filter_def setFileredList_def
        notified_def split: sum.splits)
next
  case ClickAdd
  then show ?thesis
    by (simp add: addToList_def setList_last_state notified_def)
next
  case (SettleBatch batch)
  obtain s0 queued where c: "callbacks batch s None = (s0, queued)"
    by (cases "callbacks batch s None")
  show ?thesis
  proof (cases queued)
    case None
    with SettleBatch c callbacks_cells(5) [OF c] show ?thesis
      by (simp add: settle_batch_def)
  next
    case (Some names)
    with SettleBatch c have "step s ev = setList names s0"
      by (simp add: settle_batch_def)
    with SettleBatch c Some callbacks_cells(5) [OF c] show ?thesis
      by (simp add: setList_last_state notified_def)
  qed
qed

text \<open>
  C4, as the code has it. The notifier fires once for every render in which \<open>list\<close> was
  replaced (by the click, or by one or more requests whose chains reach \<open>setList\<close> and
  that React renders together) and that shows a list that is not empty, whether or not
  the length changed. It does not fire when the new list is empty, nor when the render
  throws on an item that is an object; a change of the filter or of the identifier alone
  never fires it. The count is that of the state in which handling ended, with or
  without an uncaught error.
\<close>

theorem notifier_fires_once_per_render:
  "notified (last_state (step s ev)) =
     notified s + (if mutation s ev \<and> list_st (last_state (step s ev)) \<noteq> [] \<and>
                      list_all valid_child (list_st (last_state (step s ev)))
                   then 1 else 0)"
  by (rule step_notified_last)

theorem notifier_fires_once_per_render_witness:
  "step \<lparr>list_st = [], filter_st = [], fileredList = [], inputValue = ''bob'', console = [],
          requests = [\<lparr>url = request_url ''alice'', settled = False\<rparr>,
                      \<lparr>url = request_url ''bob'', settled = False\<rparr>]\<rparr>
     (SettleBatch
        [(0, Response 200 (JsonValue (Arr [Obj [(''full_name'', Str ''alice/a'')]]))),
         (1, Response 200 (JsonValue (Arr [Obj [(''full_name'', Str ''bob/b'')]])))]) =
   Inr \<lparr>list_st = [Str ''bob/b''], filter_st = [], fileredList = [Str ''bob/b''],
         inputValue = ''bob'', console = [ConsoleLog ''Lista salva!''],
         requests = [\<lparr>url = request_url ''alice'', settled = True\<rparr>,
                     \<lparr>url = request_url ''bob'', settled = True\<rparr>]\<rparr>
   \<and> notified \<lparr>list_st = [Str ''bob/b''], filter_st = [], fileredList = [Str ''bob/b''],
         inputValue = ''bob'', console = [ConsoleLog ''Lista salva!''],
         requests = [\<lparr>url = request_url ''alice'', settled = True\<rparr>,
                     \<lparr>url = request_url ''bob'', settled = True\<rparr>]\<rparr>
     = notified \<lparr>list_st = [], filter_st = [], fileredList = [], inputValue = ''bob'',
          console = [],
          requests = [\<lparr>url = request_url ''alice'', settled = False\<rparr>,
                      \<lparr>url = request_url ''bob'', settled = False\<rparr>]\<rparr> + 1
   \<and> notified (last_state (step
         \<lparr>list_st = [], filter_st = [], fileredList = [], inputValue = ''u'', console = [],
            requests = [\<lparr>url = request_url ''u'', settled = False\<rparr>]\<rparr>
         (Settle 0 (Response 200 (JsonValue (Arr [Obj [(''full_name'', Obj [])]])))))) = 0"
proof -
  let ?s = "\<lparr>list_st = [], filter_st = [], fileredList = [], inputValue = ''bob'', console = [],
          requests = [\<lparr>url = request_url ''alice'', settled = False\<rparr>,
                      \<lparr>url = request_url ''bob'', settled = False\<rparr>]\<rparr>"
  let ?t = "\<lparr>list_st = [Str ''bob/b''], filter_st = [], fileredList = [Str ''bob/b''],
         inputValue = ''bob'', console = [ConsoleLog ''Lista salva!''],
         requests = [\<lparr>url = request_url ''alice'', settled = True\<rparr>,
                     \<lparr>url = request_url ''bob'', settled = True\<rparr>]\<rparr>"
  let ?ev = "SettleBatch
        [(0, Response 200 (JsonValue (Arr [Obj [(''full_name'', Str ''alice/a'')]]))),
         (1, Response 200 (JsonValue (Arr [Obj [(''full_name'', Str ''bob/b'')]])))]"
  let ?u = "\<lparr>list_st = [], filter_st = [], fileredList = [], inputValue = ''u'', console = [],
            requests = [\<lparr>url = request_url ''u'', settled = False\<rparr>]\<rparr>"
  let ?bad = "Settle 0 (Response 200 (JsonValue (Arr [Obj [(''full_name'', Obj [])]])))"
  have t: "step ?s ?ev = Inr ?t"
    by (simp add: settle_batch_def in_flight_def mark_settled_def setList_def render_def
        run_effects_def Let_def effect_notify_def toWarnAPI_def effect_filter_def
        setFileredList_def)
  have m: "mutation ?s ?ev"
    by (simp add: in_flight_def mark_settled_def)
  have b: "step ?u ?bad = Inl (InvalidChild, ?u\<lparr>list_st := [Obj []],
             requests := [\<lparr>url = request_url ''u'', settled = True\<rparr>]\<rparr>)"
    by (simp add: settle_batch_def in_flight_def mark_settled_def setList_def render_def)
  have 1: "notified ?t = notified ?s + 1"
    using notifier_fires_once_per_render [of ?s ?ev] m unfolding t by simp
  have 2: "notified (last_state (step ?u ?bad)) = 0"
    using notifier_fires_once_per_render [of ?u ?bad] unfolding b by (simp add: notified_def)
  from t 1 2 show ?thesis by (intro conjI)
qed

text \<open>
  C4 as stated fails where the length changes to zero: after one click the list has one
  item; a fetch that returns the empty array changes the length from one to zero, and the
  console still holds the single notification of the click.
\<close>

theorem notifier_length_change_counterexample:
  "run initial [ClickAdd, ChangeInput ''u''] =
     Inr \<lparr>list_st = [Str ''Novo item''], filter_st = [], fileredList = [Str ''Novo item''],
           inputValue = ''u'', console = [ConsoleLog ''Lista salva!''],
           requests = [\<lparr>url = ''https://api.github.com/users/u/repos'', settled = False\<rparr>]\<rparr>
   \<and> run initial [ClickAdd, ChangeInput ''u'', Settle 0 (Response 200 (JsonValue (Arr [])))] =
     Inr \<lparr>list_st = [], filter_st = [], fileredList = [],
           inputValue = ''u'', console = [ConsoleLog ''Lista salva!''],
           requests = [\<lparr>url = ''https://api.github.com/users/u/repos'', settled = True\<rparr>]\<rparr>"
  by (simp add: component_defs)

text \<open>
  C10. No handled event that leaves \<open>list\<close> empty fires the notifier, whatever the list
  was before the event.
\<close>

theorem no_notification_while_list_empty:
  assumes "step s ev = Inr s'" and "list_st s' = []"
  shows "notified s' = notified s"
  using step_notified [OF assms(1)] assms(2) by simp

theorem no_notification_while_list_empty_witness:
  "step \<lparr>list_st = [Str ''Novo item''], filter_st = [], fileredList = [Str ''Novo item''],
          inputValue = ''u'', console = [ConsoleLog ''Lista salva!''],
          requests = [\<lparr>url = ''https://api.github.com/users/u/repos'', settled = False\<rparr>]\<rparr>
     (Settle 0 (Response 200 (JsonValue (Arr [])))) =
   Inr \<lparr>list_st = [], filter_st = [], fileredList = [],
         inputValue = ''u'', console = [ConsoleLog ''Lista salva!''],
         requests = [\<lparr>url = ''https://api.github.com/users/u/repos'', settled = True\<rparr>]\<rparr>
   \<and> notified \<lparr>list_st = [], filter_st = [], fileredList = [],
         inputValue = ''u'', console = [ConsoleLog ''Lista salva!''],
         requests = [\<lparr>url = ''https://api.github.com/users/u/repos'', settled = True\<rparr>]\<rparr>
     = notified \<lparr>list_st = [Str ''Novo item''], filter_st = [], fileredList = [Str ''Novo item''],
          inputValue = ''u'', console = [ConsoleLog ''Lista salva!''],
          requests = [\<lparr>url = ''https://api.github.com/users/u/repos'', settled = False\<rparr>]\<rparr>"
proof -
  let ?s = "\<lparr>list_st = [Str ''Novo item''], filter_st = [], fileredList = [Str ''Novo item''],
          inputValue = ''u'', console = [ConsoleLog ''Lista salva!''],
          requests = [\<lparr>url = ''https://api.github.com/users/u/repos'', settled = False\<rparr>]\<rparr>"
  let ?t = "\<lparr>list_st = [], filter_st = [], fileredList = [],
         inputValue = ''u'', console = [ConsoleLog ''Lista salva!''],
         requests = [\<lparr>url = ''https://api.github.com/users/u/repos'', settled = True\<rparr>]\<rparr>"
  have t: "step ?s (Settle 0 (Response 200 (JsonValue (Arr [])))) = Inr ?t"
    by (simp add: component_defs)
  have e: "list_st ?t = []" by simp
  from no_notification_while_list_empty [OF t e] t show ?thesis by simp
qed

text \<open>
  C5. Setting the identifier to the empty string never fails, hands no request to
  \<open>fetch\<close>, and leaves the list, the filter, the filtered list and the console as they
  were.
\<close>

theorem empty_identifier_is_noop:
  "\<exists>s'. step s (ChangeInput []) = Inr s' \<and> list_st s' = list_st s \<and>
        fileredList s' = fileredList s \<and> filter_st s' = filter_st s \<and>
        requests s' = requests s \<and> console s' = console s"
  by (simp add: handleChangeInput_def setInputValue_eq)

text \<open>
  C6. On a list of strings \<open>L\<close> the click never fails; the new list is \<open>L\<close> followed by
  \<open>''Novo item''\<close>, and the filtered list is recomputed from the new list and the
  unchanged filter.
\<close>

theorem append_placeholder:
  assumes "list_st s = map Str L"
  shows "\<exists>s'. step s ClickAdd = Inr s' \<and>
           list_st s' = map Str (L @ [''Novo item'']) \<and>
           filter_st s' = filter_st s \<and>
           fileredList s' =
             map Str (filter (\<lambda>x. \<exists>p q. x = p @ filter_st s @ q) (L @ [''Novo item'']))"
proof -
  have "list_st s @ [Str ''Novo item''] = map Str (L @ [''Novo item''])"
    using assms by simp
  then have "step s ClickAdd = setList (map Str (L @ [''Novo item''])) s"
    by (simp add: addToList_def)
  then show ?thesis
    unfolding setList_strings by (simp add: string_includes_iff)
qed

theorem append_placeholder_witness:
  "list_st \<lparr>list_st = [Str ''a'', Str ''b''], filter_st = ''o'', fileredList = [],
            inputValue = [], console = [], requests = []\<rparr> = map Str [''a'', ''b'']
   \<and> (\<exists>s'. step \<lparr>list_st = [Str ''a'', Str ''b''], filter_st = ''o'', fileredList = [],
                   inputValue = [], console = [], requests = []\<rparr> ClickAdd = Inr s' \<and>
             list_st s' = [Str ''a'', Str ''b'', Str ''Novo item''] \<and>
             filter_st s' = ''o'' \<and>
             fileredList s' = [Str ''Novo item''])"
proof -
  let ?s = "\<lparr>list_st = [Str ''a'', Str ''b''], filter_st = ''o'', fileredList = [],
            inputValue = [], console = [], requests = []\<rparr>"
  have l: "list_st ?s = map Str [''a'', ''b'']" by simp
  have f: "filter (\<lambda>x. \<exists>p q. x = p @ filter_st ?s @ q) ([''a'', ''b''] @ [''Novo item''])
             = [''Novo item'']"
    unfolding string_includes_iff [symmetric] by simp
  show ?thesis
    using append_placeholder [OF l] unfolding f by simp
qed

text \<open>
  C8. Setting the filter to \<open>f\<close> twice in a row gives the state (so the filtered list)
  that setting it once gives.
\<close>

theorem set_filter_idempotent:
  "run s [ChangeFilter f, ChangeFilter f] = run s [ChangeFilter f]"
proof (cases "setFilter f s")
  case (Inl e)
  then show ?thesis by simp
next
  case (Inr s')
  then have "filter_st s' = f" by (rule setFilter_Inr(2))
  then have "setFilter f s' = Inr s'" by (simp add: setFilter_def)
  with Inr show ?thesis by simp
qed

subsection \<open>The promise chain\<close>

lemma data_map_not_array: "(\<forall>items. d \<noteq> Arr items) \<Longrightarrow> data_map d = Inl TypeError"
  by (cases d) auto

lemma array_map_full_name_Null: "Null \<in> set items \<Longrightarrow> array_map full_name items = Inl TypeError"
proof (induction items)
  case Nil
  then show ?case by simp
next
  case (Cons x xs)
  show ?case
  proof (cases "full_name x")
    case (Inl e)
    then have "e = TypeError" by (cases x) auto
    with Inl show ?thesis by simp
  next
    case (Inr y)
    then have "x \<noteq> Null" by auto
    with Cons have "array_map full_name xs = Inl TypeError" by simp
    with Inr show ?thesis by simp
  qed
qed

lemma array_map_length: "array_map g xs = Inr ys \<Longrightarrow> length ys = length xs"
  by (induction xs arbitrary: ys) (auto split: sum.splits)

lemma array_map_records:
  "map (\<lambda>r. map_of r ''full_name'') recs = map (\<lambda>n. Some (Str n)) names \<Longrightarrow>
     array_map full_name (map Obj recs) = Inr (map Str names)"
  by (induction recs arbitrary: names) auto

lemma settle_failure:
  assumes "in_flight s k" and "fetch_chain outcome = Inl e"
  shows "step s (Settle k outcome) =
           Inr ((mark_settled k s)\<lparr>console := console s @ [ConsoleError error_prefix e]\<rparr>)"
  using assms by (simp add: settle_one catch_handler_def mark_settled_def)

lemma array_map_full_name:
  assumes "Null \<notin> set items" and "Undefined \<notin> set items"
  shows "array_map full_name items =
           Inr (map (\<lambda>item. case item of
                               Obj props \<Rightarrow>
                                 (case map_of props ''full_name'' of
                                    None \<Rightarrow> Undefined
                                  | Some v \<Rightarrow> v)
                             | _ \<Rightarrow> Undefined) items)"
  using assms
proof (induction items)
  case Nil
  then show ?case by simp
next
  case (Cons x xs)
  then show ?case by (cases x) auto
qed

lemma array_map_full_name_Undefined:
  "Undefined \<in> set items \<Longrightarrow> array_map full_name items = Inl TypeError"
proof (induction items)
  case Nil
  then show ?case by simp
next
  case (Cons x xs)
  show ?case
  proof (cases "full_name x")
    case (Inl e)
    then have "e = TypeError" by (cases x) auto
    with Inl show ?thesis by simp
  next
    case (Inr y)
    then have "x \<noteq> Undefined" by auto
    with Cons have "array_map full_name xs = Inl TypeError" by simp
    with Inr show ?thesis by simp
  qed
qed

lemma fetch_chain_Inr:
  "fetch_chain outcome = Inr names \<Longrightarrow>
     \<exists>status items. outcome = Response status (JsonValue (Arr items)) \<and>
       array_map full_name items = Inr names"
proof (cases outcome)
  case (FetchRejected e)
  assume "fetch_chain outcome = Inr names"
  with FetchRejected show ?thesis by simp
next
  case (Response status body)
  assume a: "fetch_chain outcome = Inr names"
  show ?thesis
  proof (cases body)
    case (JsonRejected e)
    with a Response show ?thesis by simp
  next
    case (JsonValue d)
    with a Response show ?thesis by (cases d) auto
  qed
qed

lemma fetch_chain_Inl_iff:
  "fetch_chain outcome = Inl e \<longleftrightarrow>
     outcome = FetchRejected e \<or>
     (\<exists>status. outcome = Response status (JsonRejected e)) \<or>
     (\<exists>status d. outcome = Response status (JsonValue d) \<and> data_map d = Inl e)"
proof (cases outcome)
  case (FetchRejected x)
  then show ?thesis by auto
next
  case (Response status body)
  then show ?thesis by (cases body) auto
qed

text \<open>
  Every list of strings and every filter text is the state of some run: a fetch delivers
  the list, a keystroke the filter.
\<close>

lemma list_and_filter_reachable:
  "\<exists>evs s. run initial evs = Inr s \<and> list_st s = map Str L \<and> filter_st s = f"
proof -
  let ?recs = "map (\<lambda>n. [(''full_name'', Str n)]) L"
  let ?evs = "[ChangeInput ''u'', Settle 0 (Response 200 (JsonValue (Arr (map Obj ?recs)))),
               ChangeFilter f]"
  have "array_map full_name (map Obj ?recs) = Inr (map Str L)"
    by (rule array_map_records) (simp add: comp_def)
  then have "\<exists>s. run initial ?evs = Inr s \<and> list_st s = map Str L \<and> filter_st s = f"
    by (simp add: handleChangeInput_def setInputValue_eq settle_one in_flight_def
        mark_settled_def setList_strings setFilter_def run_effects_def Let_def effect_filter_def
        setFileredList_def array_filter_strings initial_def)
  then show ?thesis by blast
qed

text \<open>
  C2, as the code has it. The handlers of a request do not look at the identifier it was
  issued for, nor at the current one: every result that reaches \<open>setList\<close> replaces the
  list when it arrives. With the request for \<open>a\<close> issued before the request for \<open>b\<close> and
  settled after it, the list first holds the names fetched for \<open>b\<close> and ends holding the
  names fetched for \<open>a\<close>, while the input still reads \<open>b\<close>.
\<close>

theorem last_settled_result_wins:
  assumes "a \<noteq> []" and "b \<noteq> []" and "a \<noteq> inputValue s" and "b \<noteq> a"
    and "fetch_chain ra = Inr (map Str A)" and "fetch_chain rb = Inr (map Str B)"
  shows "\<exists>s1 s2. run s [ChangeInput a, ChangeInput b, Settle (Suc (length (requests s))) rb] = Inr s1 \<and>
           list_st s1 = map Str B \<and> inputValue s1 = b \<and>
           step s1 (Settle (length (requests s)) ra) = Inr s2 \<and>
           list_st s2 = map Str A \<and> inputValue s2 = b"
  using assms
  by (simp add: handleChangeInput_def setInputValue_eq settle_one in_flight_def
      mark_settled_def setList_strings nth_append)

theorem last_settled_result_wins_witness:
  "''alice'' \<noteq> [] \<and> ''bob'' \<noteq> [] \<and> ''alice'' \<noteq> inputValue initial \<and> ''bob'' \<noteq> ''alice''
   \<and> fetch_chain (Response 200 (JsonValue (Arr [Obj [(''full_name'', Str ''alice/a'')]])))
       = Inr (map Str [''alice/a''])
   \<and> fetch_chain (Response 200 (JsonValue (Arr [Obj [(''full_name'', Str ''bob/b'')]])))
       = Inr (map Str [''bob/b''])
   \<and> (\<exists>s1 s2.
         run initial
           [ChangeInput ''alice'', ChangeInput ''bob'',
            Settle 1 (Response 200 (JsonValue (Arr [Obj [(''full_name'', Str ''bob/b'')]])))] = Inr s1 \<and>
         list_st s1 = [Str ''bob/b''] \<and> inputValue s1 = ''bob'' \<and>
         step s1 (Settle 0 (Response 200 (JsonValue (Arr [Obj [(''full_name'', Str ''alice/a'')]]))))
           = Inr s2 \<and>
         list_st s2 = [Str ''alice/a''] \<and> inputValue s2 = ''bob'')"
proof -
  have a: "''alice'' \<noteq> []" and b: "''bob'' \<noteq> []" and ab: "''bob'' \<noteq> ''alice''"
    by simp_all
  have i: "''alice'' \<noteq> inputValue initial"
    by (simp add: initial_def)
  have ra: "fetch_chain (Response 200 (JsonValue (Arr [Obj [(''full_name'', Str ''alice/a'')]])))
              = Inr (map Str [''alice/a''])"
    by simp
  have rb: "fetch_chain (Response 200 (JsonValue (Arr [Obj [(''full_name'', Str ''bob/b'')]])))
              = Inr (map Str [''bob/b''])"
    by simp
  have n: "length (requests initial) = 0"
    by (simp add: initial_def)
  from last_settled_result_wins [OF a b i ab ra rb] a b i ab ra rb
  show ?thesis unfolding n by simp
qed

text \<open>
  C2 as stated fails: the identifier is set to alice and then to bob, the request for bob
  settles first and the request for alice after it; the list ends with the repository of
  alice.
\<close>

theorem stale_result_overwrites_counterexample:
  "run initial
     [ChangeInput ''alice'', ChangeInput ''bob'',
      Settle 1 (Response 200 (JsonValue (Arr [Obj [(''full_name'', Str ''bob/b'')]]))),
      Settle 0 (Response 200 (JsonValue (Arr [Obj [(''full_name'', Str ''alice/a'')]])))] =
   Inr \<lparr>list_st = [Str ''alice/a''], filter_st = [], fileredList = [Str ''alice/a''],
         inputValue = ''bob'',
         console = [ConsoleLog ''Lista salva!'', ConsoleLog ''Lista salva!''],
         requests = [\<lparr>url = ''https://api.github.com/users/alice/repos'', settled = True\<rparr>,
                     \<lparr>url = ''https://api.github.com/users/bob/repos'', settled = True\<rparr>]\<rparr>"
  by (simp add: component_defs)

text \<open>
  C3, as the code has it. When the chain of a request in flight ends in \<open>catch\<close> (the
  transport failed, the body is not JSON, or \<open>data.map\<close> threw), handling the event
  raises nothing, the four state cells keep their values, and the console receives one
  line: the fixed prefix and the error, without the identifier.
\<close>

theorem fetch_failure_is_logged_and_keeps_list:
  assumes "in_flight s k" and "fetch_chain outcome = Inl e"
  shows "\<exists>s'. step s (Settle k outcome) = Inr s' \<and>
           list_st s' = list_st s \<and> fileredList s' = fileredList s \<and>
           filter_st s' = filter_st s \<and> inputValue s' = inputValue s \<and>
           console s' = console s @ [ConsoleError error_prefix e]"
  using settle_failure [OF assms] by (simp add: mark_settled_def)

theorem fetch_failure_is_logged_and_keeps_list_witness:
  "in_flight \<lparr>list_st = [Str ''Novo item''], filter_st = [], fileredList = [Str ''Novo item''],
        inputValue = ''ghost-user'', console = [ConsoleLog ''Lista salva!''],
        requests = [\<lparr>url = request_url ''ghost-user'', settled = False\<rparr>]\<rparr> 0
   \<and> fetch_chain (Response 404 (JsonValue (Obj [(''message'', Str ''Not Found'')]))) = Inl TypeError
   \<and> (\<exists>s'. step \<lparr>list_st = [Str ''Novo item''], filter_st = [], fileredList = [Str ''Novo item''],
        inputValue = ''ghost-user'', console = [ConsoleLog ''Lista salva!''],
        requests = [\<lparr>url = request_url ''ghost-user'', settled = False\<rparr>]\<rparr>
          (Settle 0 (Response 404 (JsonValue (Obj [(''message'', Str ''Not Found'')])))) = Inr s' \<and>
        list_st s' = [Str ''Novo item''] \<and>
        console s' = [ConsoleLog ''Lista salva!'', ConsoleError error_prefix TypeError])"
proof -
  let ?s = "\<lparr>list_st = [Str ''Novo item''], filter_st = [], fileredList = [Str ''Novo item''],
        inputValue = ''ghost-user'', console = [ConsoleLog ''Lista salva!''],
        requests = [\<lparr>url = request_url ''ghost-user'', settled = False\<rparr>]\<rparr>"
  have i: "in_flight ?s 0" by (simp add: in_flight_def)
  have f: "fetch_chain (Response 404 (JsonValue (Obj [(''message'', Str ''Not Found'')]))) = Inl TypeError"
    by simp
  from fetch_failure_is_logged_and_keeps_list [OF i f] i f show ?thesis by auto
qed

text \<open>
  C3 as stated fails twice. The line logged for the request of ghost-user, answered 404
  with the error object of the API, holds the prefix and a \<open>TypeError\<close>, and the prefix
  does not contain the identifier. And the status is not read: a 404 whose body is the
  empty array empties a list of one item and logs no error.
\<close>

theorem fetch_failure_event_counterexample:
  "run initial
     [ChangeInput ''ghost-user'',
      Settle 0 (Response 404 (JsonValue (Obj [(''message'', Str ''Not Found'')])))] =
   Inr \<lparr>list_st = [], filter_st = [], fileredList = [], inputValue = ''ghost-user'',
         console = [ConsoleError error_prefix TypeError],
         requests = [\<lparr>url = ''https://api.github.com/users/ghost-user/repos'', settled = True\<rparr>]\<rparr>
   \<and> \<not> string_includes error_prefix ''ghost-user''
   \<and> run initial
     [ClickAdd, ChangeInput ''ghost-user'', Settle 0 (Response 404 (JsonValue (Arr [])))] =
   Inr \<lparr>list_st = [], filter_st = [], fileredList = [], inputValue = ''ghost-user'',
         console = [ConsoleLog ''Lista salva!''],
         requests = [\<lparr>url = ''https://api.github.com/users/ghost-user/repos'', settled = True\<rparr>]\<rparr>"
  by (simp add: component_defs error_prefix_def)

text \<open>
  C7. When the body of the response is an array of records that each have a string under
  \<open>full_name\<close>, handling the event does not fail and the list becomes those strings, in
  the order of the response. Any other response whose records agree on \<open>full_name\<close>,
  whatever its status and its other fields, leads to the same state.
\<close>

theorem fetch_success_replaces_list:
  assumes "in_flight s k"
    and "map (\<lambda>r. map_of r ''full_name'') recs = map (\<lambda>n. Some (Str n)) names"
  shows "\<exists>s'. step s (Settle k (Response status (JsonValue (Arr (map Obj recs))))) = Inr s' \<and>
           list_st s' = map Str names \<and>
           (\<forall>status' recs'.
              map (\<lambda>r. map_of r ''full_name'') recs' = map (\<lambda>r. map_of r ''full_name'') recs \<longrightarrow>
              step s (Settle k (Response status' (JsonValue (Arr (map Obj recs'))))) = Inr s')"
  using assms
  by (simp add: settle_one array_map_records setList_strings)

theorem fetch_success_replaces_list_witness:
  "in_flight \<lparr>list_st = [Str ''Novo item''], filter_st = ''ab'', fileredList = [],
        inputValue = ''u'', console = [ConsoleLog ''Lista salva!''],
        requests = [\<lparr>url = request_url ''u'', settled = False\<rparr>]\<rparr> 0
   \<and> map (\<lambda>r. map_of r ''full_name'')
        [[(''id'', Num 1), (''full_name'', Str ''u/ab'')], [(''full_name'', Str ''u/cd'')]]
       = map (\<lambda>n. Some (Str n)) [''u/ab'', ''u/cd'']
   \<and> (\<exists>s'. step \<lparr>list_st = [Str ''Novo item''], filter_st = ''ab'', fileredList = [],
        inputValue = ''u'', console = [ConsoleLog ''Lista salva!''],
        requests = [\<lparr>url = request_url ''u'', settled = False\<rparr>]\<rparr>
          (Settle 0 (Response 200 (JsonValue (Arr (map Obj
             [[(''id'', Num 1), (''full_name'', Str ''u/ab'')], [(''full_name'', Str ''u/cd'')]])))))
          = Inr s' \<and>
        list_st s' = [Str ''u/ab'', Str ''u/cd''] \<and>
        step \<lparr>list_st = [Str ''Novo item''], filter_st = ''ab'', fileredList = [],
        inputValue = ''u'', console = [ConsoleLog ''Lista salva!''],
        requests = [\<lparr>url = request_url ''u'', settled = False\<rparr>]\<rparr>
          (Settle 0 (Response 203 (JsonValue (Arr (map Obj
             [[(''full_name'', Str ''u/ab''), (''fork'', Bool True)],
              [(''name'', Str ''x''), (''full_name'', Str ''u/cd'')]])))))
          = Inr s')"
proof -
  let ?s = "\<lparr>list_st = [Str ''Novo item''], filter_st = ''ab'', fileredList = [],
        inputValue = ''u'', console = [ConsoleLog ''Lista salva!''],
        requests = [\<lparr>url = request_url ''u'', settled = False\<rparr>]\<rparr>"
  let ?recs = "[[(''id'', Num 1), (''full_name'', Str ''u/ab'')], [(''full_name'', Str ''u/cd'')]]"
  let ?recs' = "[[(''full_name'', Str ''u/ab''), (''fork'', Bool True)],
              [(''name'', Str ''x''), (''full_name'', Str ''u/cd'')]]"
  have i: "in_flight ?s 0" by (simp add: in_flight_def)
  have m: "map (\<lambda>r. map_of r ''full_name'') ?recs = map (\<lambda>n. Some (Str n)) [''u/ab'', ''u/cd'']"
    by simp
  have m': "map (\<lambda>r. map_of r ''full_name'') ?recs' = map (\<lambda>r. map_of r ''full_name'') ?recs"
    by simp
  from fetch_success_replaces_list [OF i m, of 200] obtain s' where
    s: "step ?s (Settle 0 (Response 200 (JsonValue (Arr (map Obj ?recs))))) = Inr s'"
      "list_st s' = map Str [''u/ab'', ''u/cd'']"
    and all: "\<forall>status' recs'.
              map (\<lambda>r. map_of r ''full_name'') recs' = map (\<lambda>r. map_of r ''full_name'') ?recs \<longrightarrow>
              step ?s (Settle 0 (Response status' (JsonValue (Arr (map Obj recs'))))) = Inr s'"
    by blast
  from all m' have "step ?s (Settle 0 (Response 203 (JsonValue (Arr (map Obj ?recs'))))) = Inr s'"
    by blast
  with s i m show ?thesis
    by (intro conjI exI [of _ s']) simp_all
qed

text \<open>
  C9, as the code has it. A body that is not an array, or an array with \<open>null\<close> (or
  \<open>undefined\<close>) among its elements, makes \<open>data.map\<close> throw: the error is logged and the
  list and the filtered list keep their values. An array without such an element is not
  validated: nothing reaches \<open>catch\<close>, and \<open>list\<close> becomes the \<open>full_name\<close> read from every
  element, one entry per element, \<open>undefined\<close> where the element has none; this holds
  also when the render or the filter effect then throws. So the request either leaves
  \<open>list\<close> as it was or replaces all of it.
\<close>

theorem fetch_replaces_or_keeps:
  "(in_flight s k \<longrightarrow>
      (\<forall>items. d \<noteq> Arr items) \<or>
      (\<exists>items. d = Arr items \<and> (Null \<in> set items \<or> Undefined \<in> set items)) \<longrightarrow>
      (\<exists>s'. step s (Settle k (Response status (JsonValue d))) = Inr s' \<and>
            list_st s' = list_st s \<and> fileredList s' = fileredList s \<and>
            console s' = console s @ [ConsoleError error_prefix TypeError]))
   \<and> (in_flight s k \<longrightarrow> Null \<notin> set items \<longrightarrow> Undefined \<notin> set items \<longrightarrow>
        list_st (last_state (step s (Settle k (Response status (JsonValue (Arr items)))))) =
          map (\<lambda>item. case item of
                        Obj props \<Rightarrow>
                          (case map_of props ''full_name'' of None \<Rightarrow> Undefined | Some v \<Rightarrow> v)
                      | _ \<Rightarrow> Undefined) items
        \<and> (\<forall>e. ConsoleError error_prefix e \<in>
                  set (console (last_state (step s (Settle k (Response status (JsonValue (Arr items)))))))
               \<longrightarrow> ConsoleError error_prefix e \<in> set (console s)))
   \<and> (list_st (last_state (step s (Settle k outcome))) = list_st s \<or>
        (\<exists>status items. outcome = Response status (JsonValue (Arr items)) \<and>
           list_st (last_state (step s (Settle k outcome))) =
             map (\<lambda>item. case item of
                        Obj props \<Rightarrow>
                          (case map_of props ''full_name'' of None \<Rightarrow> Undefined | Some v \<Rightarrow> v)
                      | _ \<Rightarrow> Undefined) items))"
proof (intro conjI impI)
  assume i: "in_flight s k"
    and d: "(\<forall>items. d \<noteq> Arr items) \<or>
            (\<exists>items. d = Arr items \<and> (Null \<in> set items \<or> Undefined \<in> set items))"
  from d have "fetch_chain (Response status (JsonValue d)) = Inl TypeError"
    by (auto simp: data_map_not_array array_map_full_name_Null array_map_full_name_Undefined)
  from settle_failure [OF i this]
  show "\<exists>s'. step s (Settle k (Response status (JsonValue d))) = Inr s' \<and>
            list_st s' = list_st s \<and> fileredList s' = fileredList s \<and>
            console s' = console s @ [ConsoleError error_prefix TypeError]"
    by (simp add: mark_settled_def)
next
  let ?own = "\<lambda>item. case item of
                        Obj props \<Rightarrow>
                          (case map_of props ''full_name'' of None \<Rightarrow> Undefined | Some v \<Rightarrow> v)
                      | _ \<Rightarrow> Undefined"
  let ?r = "step s (Settle k (Response status (JsonValue (Arr items))))"
  assume i: "in_flight s k" and n: "Null \<notin> set items" and u: "Undefined \<notin> set items"
  have c: "fetch_chain (Response status (JsonValue (Arr items))) = Inr (map ?own items)"
    using array_map_full_name [OF n u] by simp
  with i have r: "?r = setList (map ?own items) (mark_settled k s)"
    by (simp add: settle_one)
  show "list_st (last_state ?r) = map ?own items"
    unfolding r by (rule setList_last_state(1))
  show "\<forall>e. ConsoleError error_prefix e \<in> set (console (last_state ?r))
               \<longrightarrow> ConsoleError error_prefix e \<in> set (console s)"
    unfolding r setList_last_state(2) by (auto simp: mark_settled_def)
next
  let ?own = "\<lambda>item. case item of
                        Obj props \<Rightarrow>
                          (case map_of props ''full_name'' of None \<Rightarrow> Undefined | Some v \<Rightarrow> v)
                      | _ \<Rightarrow> Undefined"
  let ?r = "step s (Settle k outcome)"
  show "list_st (last_state ?r) = list_st s \<or>
        (\<exists>status items. outcome = Response status (JsonValue (Arr items)) \<and>
           list_st (last_state ?r) = map ?own items)"
  proof (cases "in_flight s k")
    case False
    then show ?thesis by (simp add: settle_one)
  next
    case True
    show ?thesis
    proof (cases "fetch_chain outcome")
      case (Inl e)
      from settle_failure [OF True Inl] show ?thesis by (simp add: mark_settled_def)
    next
      case (Inr names)
      from fetch_chain_Inr [OF Inr] obtain status items where
        o: "outcome = Response status (JsonValue (Arr items))"
        and m: "array_map full_name items = Inr names"
        by blast
      have "Null \<notin> set items" and "Undefined \<notin> set items"
        using m array_map_full_name_Null array_map_full_name_Undefined by fastforce+
      from array_map_full_name [OF this] m have names: "names = map ?own items"
        by simp
      from True Inr have "?r = setList names (mark_settled k s)"
        by (simp add: settle_one)
      then have "list_st (last_state ?r) = names"
        by (simp add: setList_last_state(1))
      with o names show ?thesis by blast
    qed
  qed
qed

theorem fetch_replaces_or_keeps_witness:
  "in_flight \<lparr>list_st = [Str ''Novo item''], filter_st = [], fileredList = [Str ''Novo item''],
        inputValue = ''ghost-user'', console = [ConsoleLog ''Lista salva!''],
        requests = [\<lparr>url = request_url ''ghost-user'', settled = False\<rparr>]\<rparr> 0
   \<and> (\<forall>items. Obj [(''message'', Str ''Not Found'')] \<noteq> Arr items)
   \<and> (\<exists>s'. step \<lparr>list_st = [Str ''Novo item''], filter_st = [], fileredList = [Str ''Novo item''],
        inputValue = ''ghost-user'', console = [ConsoleLog ''Lista salva!''],
        requests = [\<lparr>url = request_url ''ghost-user'', settled = False\<rparr>]\<rparr>
          (Settle 0 (Response 404 (JsonValue (Obj [(''message'', Str ''Not Found'')])))) = Inr s' \<and>
        list_st s' = [Str ''Novo item''] \<and>
        console s' = [ConsoleLog ''Lista salva!'', ConsoleError error_prefix TypeError])
   \<and> Null \<notin> set [Obj [(''name'', Str ''x'')], Num 1, Obj [(''full_name'', Str ''g/r'')]]
   \<and> Undefined \<notin> set [Obj [(''name'', Str ''x'')], Num 1, Obj [(''full_name'', Str ''g/r'')]]
   \<and> list_st (last_state (step
        \<lparr>list_st = [Str ''Novo item''], filter_st = [], fileredList = [Str ''Novo item''],
        inputValue = ''ghost-user'', console = [ConsoleLog ''Lista salva!''],
        requests = [\<lparr>url = request_url ''ghost-user'', settled = False\<rparr>]\<rparr>
          (Settle 0 (Response 200 (JsonValue
             (Arr [Obj [(''name'', Str ''x'')], Num 1, Obj [(''full_name'', Str ''g/r'')]]))))))
       = [Undefined, Undefined, Str ''g/r'']"
proof -
  let ?s = "\<lparr>list_st = [Str ''Novo item''], filter_st = [], fileredList = [Str ''Novo item''],
        inputValue = ''ghost-user'', console = [ConsoleLog ''Lista salva!''],
        requests = [\<lparr>url = request_url ''ghost-user'', settled = False\<rparr>]\<rparr>"
  let ?items = "[Obj [(''name'', Str ''x'')], Num 1, Obj [(''full_name'', Str ''g/r'')]]"
  have i: "in_flight ?s 0" by (simp add: in_flight_def)
  have d: "\<forall>items. Obj [(''message'', Str ''Not Found'')] \<noteq> Arr items" by simp
  have n: "Null \<notin> set ?items" and u: "Undefined \<notin> set ?items" by simp_all
  note inst = fetch_replaces_or_keeps
    [where s = ?s and k = 0 and d = "Obj [(''message'', Str ''Not Found'')]" and status = 404]
  note inst' = fetch_replaces_or_keeps
    [where s = ?s and k = 0 and items = ?items and status = 200]
  have 1: "\<exists>s'. step ?s (Settle 0 (Response 404 (JsonValue (Obj [(''message'', Str ''Not Found'')])))) = Inr s' \<and>
        list_st s' = [Str ''Novo item''] \<and>
        console s' = [ConsoleLog ''Lista salva!'', ConsoleError error_prefix TypeError]"
    using inst [THEN conjunct1, rule_format, OF i disjI1 [OF d]] by auto
  have 2: "list_st (last_state (step ?s (Settle 0 (Response 200 (JsonValue (Arr ?items))))))
       = [Undefined, Undefined, Str ''g/r'']"
    using inst' [THEN conjunct2, THEN conjunct1, rule_format, OF i n u, THEN conjunct1]
    by simp
  from i d 1 n u 2 show ?thesis by (intro conjI)
qed

text \<open>
  C9 as stated fails on an array whose elements are not records: for the body \<open>[1]\<close>
  nothing is thrown in the chain, \<open>setList\<close> receives \<open>[undefined]\<close>, the notifier fires on
  the list of one item, and the filter effect then throws a \<open>TypeError\<close> that no handler
  catches.
\<close>

theorem unvalidated_array_counterexample:
  "fetch_chain (Response 200 (JsonValue (Arr [Num 1]))) = Inr [Undefined]
   \<and> run initial [ChangeInput ''u'', Settle 0 (Response 200 (JsonValue (Arr [Num 1])))] =
       Inl (TypeError,
            \<lparr>list_st = [Undefined], filter_st = [], fileredList = [], inputValue = ''u'',
              console = [ConsoleLog ''Lista salva!''],
              requests = [\<lparr>url = ''https://api.github.com/users/u/repos'', settled = True\<rparr>]\<rparr>)"
  by (simp add: component_defs)

end
